theory Spec2Isabelle
  imports Main "HOL-Library.Word" "HOL-Library.Char_ord" "HOL-Library.List_Lexorder"
begin

unbundle bit_operations_syntax

section \<open>Python values and text\<close>

text \<open>
  The ledger of \<^verbatim>\<open>src/main.py\<close> stores, per block, a payload dictionary whose keys are
  strings. All payloads of the program map strings to strings; the model admits the scalar
  JSON values \<^verbatim>\<open>None\<close>, booleans, integers and strings as dictionary values. A dictionary
  is an association list in insertion order; a real Python dictionary has distinct keys.
  Python strings are lists of characters with code points below 256, compared by code
  point, which is the order on characters lifted lexicographically to lists.
\<close>

datatype pyval = PNone | PBool bool | PInt int | PStr string

type_synonym payload = "(string \<times> pyval) list"

datatype error = IndexError

definition LF :: char where "LF = CHR 0x0A"
definition CR :: char where "CR = CHR 0x0D"
definition DQUOTE :: char where "DQUOTE = CHR 0x22"
definition BACKSLASH :: char where "BACKSLASH = CHR 0x5C"

text \<open>Decimal rendering of an integer, as \<^verbatim>\<open>str(n)\<close> and \<^verbatim>\<open>json.dumps(n)\<close> give it.\<close>

definition dec_digit :: "nat \<Rightarrow> char" where
  "dec_digit n = ''0123456789'' ! (n mod 10)"

fun dec_nat :: "nat \<Rightarrow> string" where
  "dec_nat n = (if n < 10 then [dec_digit n] else dec_nat (n div 10) @ [dec_digit n])"

declare dec_nat.simps [simp del]

definition py_str_int :: "int \<Rightarrow> string" where
  "py_str_int i = (if i < 0 then CHR ''-'' # dec_nat (nat (- i)) else dec_nat (nat i))"

text \<open>\<^verbatim>\<open>str(v)\<close>, which an f-string applies to the value it interpolates.\<close>

fun py_str :: "pyval \<Rightarrow> string" where
  "py_str PNone = ''None''"
| "py_str (PBool b) = (if b then ''True'' else ''False'')"
| "py_str (PInt i) = py_str_int i"
| "py_str (PStr s) = s"

text \<open>\<^verbatim>\<open>d.get(key, default)\<close>.\<close>

definition dict_get :: "payload \<Rightarrow> string \<Rightarrow> pyval \<Rightarrow> pyval" where
  "dict_get d k dflt = (case map_of d k of None \<Rightarrow> dflt | Some v \<Rightarrow> v)"

text \<open>\<^verbatim>\<open>sep.join(parts)\<close>.\<close>

fun join :: "string \<Rightarrow> string list \<Rightarrow> string" where
  "join sep [] = []"
| "join sep [p] = p"
| "join sep (p # q # ps) = p @ sep @ join sep (q # ps)"

text \<open>\<^verbatim>\<open>sub in s\<close> on strings.\<close>

fun contains :: "string \<Rightarrow> string \<Rightarrow> bool" where
  "contains sub [] = (sub = [])"
| "contains sub (c # cs) = (take (length sub) (c # cs) = sub \<or> contains sub cs)"

section \<open>json.dumps with sort_keys=True\<close>

text \<open>
  The default encoder escapes to ASCII: the quote and the backslash get a backslash, the
  control characters with a short form use it, every other character outside the range
  from space to tilde is written as a four-digit lower-case hexadecimal escape.
\<close>

definition hex_char :: "nat \<Rightarrow> char" where
  "hex_char n = ''0123456789abcdef'' ! (n mod 16)"

definition json_escape :: "char \<Rightarrow> string" where
  "json_escape c =
     (if c = DQUOTE then [BACKSLASH, DQUOTE]
      else if c = BACKSLASH then [BACKSLASH, BACKSLASH]
      else if c = LF then [BACKSLASH, CHR ''n'']
      else if c = CR then [BACKSLASH, CHR ''r'']
      else if c = CHR 0x09 then [BACKSLASH, CHR ''t'']
      else if c = CHR 0x08 then [BACKSLASH, CHR ''b'']
      else if c = CHR 0x0C then [BACKSLASH, CHR ''f'']
      else if 32 \<le> (of_char c :: nat) \<and> (of_char c :: nat) \<le> 126 then [c]
      else [BACKSLASH, CHR ''u'', CHR ''0'', CHR ''0'',
            hex_char ((of_char c :: nat) div 16), hex_char (of_char c :: nat)])"

definition json_str :: "string \<Rightarrow> string" where
  "json_str s = DQUOTE # concat (map json_escape s) @ [DQUOTE]"

fun json_scalar :: "pyval \<Rightarrow> string" where
  "json_scalar PNone = ''null''"
| "json_scalar (PBool b) = (if b then ''true'' else ''false'')"
| "json_scalar (PInt i) = py_str_int i"
| "json_scalar (PStr s) = json_str s"

text \<open>
  A dictionary whose values are already encoded: the items are sorted by key
  (\<^verbatim>\<open>sort_keys=True\<close>) and joined with the default separators.
\<close>

definition dumps_items :: "(string \<times> string) list \<Rightarrow> string" where
  "dumps_items items =
     ''{'' @ join '', '' (map (\<lambda>kv. json_str (fst kv) @ '': '' @ snd kv) (sort_key fst items)) @ ''}''"

text \<open>\<^verbatim>\<open>json.dumps(data, sort_keys=True)\<close> for a payload.\<close>

definition dumps_data :: "payload \<Rightarrow> string" where
  "dumps_data d = dumps_items (map (\<lambda>kv. (fst kv, json_scalar (snd kv))) d)"

text \<open>The dictionary \<^verbatim>\<open>block_info\<close> holds scalars and the payload dictionary.\<close>

datatype info_val = Scalar pyval | Dict payload

fun json_value :: "info_val \<Rightarrow> string" where
  "json_value (Scalar v) = json_scalar v"
| "json_value (Dict d) = dumps_data d"

definition json_dumps_sorted :: "(string \<times> info_val) list \<Rightarrow> string" where
  "json_dumps_sorted info = dumps_items (map (\<lambda>kv. (fst kv, json_value (snd kv))) info)"

section \<open>hashlib.sha256\<close>

text \<open>
  SHA-256 as \<^verbatim>\<open>hashlib.sha256(bytes).hexdigest()\<close> computes it: the message is padded
  to whole 64-byte chunks, each chunk is expanded to 64 words and compressed into the
  eight-word state, and the state is printed as 64 lower-case hexadecimal digits.
\<close>

type_synonym u32 = "32 word"

definition rotr :: "nat \<Rightarrow> u32 \<Rightarrow> u32" where
  "rotr n x = (drop_bit n x) OR (push_bit (32 - n) x)"

definition Ch :: "u32 \<Rightarrow> u32 \<Rightarrow> u32 \<Rightarrow> u32" where
  "Ch x y z = (x AND y) XOR (NOT x AND z)"

definition Maj :: "u32 \<Rightarrow> u32 \<Rightarrow> u32 \<Rightarrow> u32" where
  "Maj x y z = (x AND y) XOR (x AND z) XOR (y AND z)"

definition Sigma0 :: "u32 \<Rightarrow> u32" where
  "Sigma0 x = rotr 2 x XOR rotr 13 x XOR rotr 22 x"

definition Sigma1 :: "u32 \<Rightarrow> u32" where
  "Sigma1 x = rotr 6 x XOR rotr 11 x XOR rotr 25 x"

definition sigma0 :: "u32 \<Rightarrow> u32" where
  "sigma0 x = rotr 7 x XOR rotr 18 x XOR drop_bit 3 x"

definition sigma1 :: "u32 \<Rightarrow> u32" where
  "sigma1 x = rotr 17 x XOR rotr 19 x XOR drop_bit 10 x"

definition K256 :: "u32 list" where
  "K256 = [
    0x428A2F98, 0x71374491, 0xB5C0FBCF, 0xE9B5DBA5, 0x3956C25B, 0x59F111F1, 0x923F82A4, 0xAB1C5ED5,
    0xD807AA98, 0x12835B01, 0x243185BE, 0x550C7DC3, 0x72BE5D74, 0x80DEB1FE, 0x9BDC06A7, 0xC19BF174,
    0xE49B69C1, 0xEFBE4786, 0x0FC19DC6, 0x240CA1CC, 0x2DE92C6F, 0x4A7484AA, 0x5CB0A9DC, 0x76F988DA,
    0x983E5152, 0xA831C66D, 0xB00327C8, 0xBF597FC7, 0xC6E00BF3, 0xD5A79147, 0x06CA6351, 0x14292967,
    0x27B70A85, 0x2E1B2138, 0x4D2C6DFC, 0x53380D13, 0x650A7354, 0x766A0ABB, 0x81C2C92E, 0x92722C85,
    0xA2BFE8A1, 0xA81A664B, 0xC24B8B70, 0xC76C51A3, 0xD192E819, 0xD6990624, 0xF40E3585, 0x106AA070,
    0x19A4C116, 0x1E376C08, 0x2748774C, 0x34B0BCB5, 0x391C0CB3, 0x4ED8AA4A, 0x5B9CCA4F, 0x682E6FF3,
    0x748F82EE, 0x78A5636F, 0x84C87814, 0x8CC70208, 0x90BEFFFA, 0xA4506CEB, 0xBEF9A3F7, 0xC67178F2]"

definition H256 :: "u32 list" where
  "H256 = [0x6A09E667, 0xBB67AE85, 0x3C6EF372, 0xA54FF53A,
           0x510E527F, 0x9B05688C, 0x1F83D9AB, 0x5BE0CD19]"

definition be_bytes64 :: "64 word \<Rightarrow> 8 word list" where
  "be_bytes64 n = map (\<lambda>i. ucast (drop_bit (8 * i) n)) (rev [0..<8])"

definition pad :: "8 word list \<Rightarrow> 8 word list" where
  "pad bs = bs @ [128] @ replicate ((119 - length bs mod 64) mod 64) 0
              @ be_bytes64 (8 * word_of_nat (length bs))"

definition be32 :: "8 word \<Rightarrow> 8 word \<Rightarrow> 8 word \<Rightarrow> 8 word \<Rightarrow> u32" where
  "be32 a b c d =
     push_bit 24 (ucast a) OR push_bit 16 (ucast b) OR push_bit 8 (ucast c) OR ucast d"

fun be_words :: "8 word list \<Rightarrow> u32 list" where
  "be_words bs = (if length bs < 4 then []
                  else be32 (bs ! 0) (bs ! 1) (bs ! 2) (bs ! 3) # be_words (drop 4 bs))"

declare be_words.simps [simp del]

fun schedule :: "nat \<Rightarrow> u32 list \<Rightarrow> u32 list" where
  "schedule 0 w = w"
| "schedule (Suc n) w =
     schedule n (w @ [sigma1 (w ! (length w - 2)) + w ! (length w - 7)
                      + sigma0 (w ! (length w - 15)) + w ! (length w - 16)])"

definition round256 :: "u32 list \<Rightarrow> u32 \<times> u32 \<Rightarrow> u32 list" where
  "round256 s kw =
     (let a = s ! 0; b = s ! 1; c = s ! 2; d = s ! 3;
          e = s ! 4; f = s ! 5; g = s ! 6; h = s ! 7;
          t1 = h + Sigma1 e + Ch e f g + fst kw + snd kw;
          t2 = Sigma0 a + Maj a b c
      in [t1 + t2, a, b, c, d + t1, e, f, g])"

definition compress :: "u32 list \<Rightarrow> u32 list \<Rightarrow> u32 list" where
  "compress h m = map2 (+) h (foldl round256 h (zip K256 (schedule 48 m)))"

fun chunks :: "u32 list \<Rightarrow> u32 list list" where
  "chunks ws = (if length ws < 16 then [] else take 16 ws # chunks (drop 16 ws))"

declare chunks.simps [simp del]

definition sha256 :: "8 word list \<Rightarrow> u32 list" where
  "sha256 bs = foldl compress H256 (chunks (be_words (pad bs)))"

definition hex_digit :: "u32 \<Rightarrow> char" where
  "hex_digit n = ''0123456789abcdef'' ! unat (n AND 15)"

definition hex32 :: "u32 \<Rightarrow> string" where
  "hex32 w = map (\<lambda>i. hex_digit (drop_bit (4 * i) w)) (rev [0..<8])"

text \<open>
  \<^verbatim>\<open>s.encode()\<close>: the encoder's output is ASCII, where UTF-8 writes one byte per
  character.
\<close>

definition encode :: "string \<Rightarrow> 8 word list" where
  "encode s = map of_char s"

definition hexdigest :: "8 word list \<Rightarrow> string" where
  "hexdigest bs = concat (map hex32 (sha256 bs))"

section \<open>Block\<close>

record Block =
  index :: int
  timestamp :: string
  data :: payload
  prev_hash :: string
  block_info :: "(string \<times> info_val) list"
  hash :: string

definition calcHash :: "Block \<Rightarrow> string" where
  "calcHash b = hexdigest (encode (json_dumps_sorted (block_info b)))"

text \<open>\<^verbatim>\<open>Block.__init__\<close>: the four fields, their dictionary, then the digest of it.\<close>

definition block_info_of :: "int \<Rightarrow> string \<Rightarrow> payload \<Rightarrow> string \<Rightarrow> (string \<times> info_val) list" where
  "block_info_of i t d p =
     [(''Index'', Scalar (PInt i)), (''Timestamp'', Scalar (PStr t)),
      (''Data'', Dict d), (''Previous Hash'', Scalar (PStr p))]"

definition Block_init :: "int \<Rightarrow> string \<Rightarrow> payload \<Rightarrow> string \<Rightarrow> Block" where
  "Block_init i t d p =
     (let b = \<lparr>index = i, timestamp = t, data = d, prev_hash = p,
               block_info = block_info_of i t d p, hash = []\<rparr>
      in b\<lparr>hash := calcHash b\<rparr>)"

section \<open>PharmaBlockChain\<close>

text \<open>
  The state the methods work on: the list \<^verbatim>\<open>self.chain\<close>, the strings printed so far
  (one per call of \<^verbatim>\<open>print\<close>) and the files by path. The clock reading of
  \<^verbatim>\<open>time.ctime()\<close> is an argument of the operations that take it.
\<close>

record world =
  chain :: "Block list"
  stdout :: "string list"
  files :: "string \<rightharpoonup> string"

definition print :: "string \<Rightarrow> world \<Rightarrow> world" where
  "print s w = w\<lparr>stdout := stdout w @ [s]\<rparr>"

definition generate_genesis_block :: "string \<Rightarrow> Block" where
  "generate_genesis_block now = Block_init 0 now [(''Event'', PStr ''Genesis Block'')] ''0''"

definition PharmaBlockChain_init :: "string \<Rightarrow> world \<Rightarrow> world" where
  "PharmaBlockChain_init now w = w\<lparr>chain := [generate_genesis_block now]\<rparr>"

text \<open>\<^verbatim>\<open>self.chain[-1]\<close> raises IndexError on the empty list.\<close>

definition retrieve_block :: "world \<Rightarrow> error + Block" where
  "retrieve_block w = (if chain w = [] then Inl IndexError else Inr (last (chain w)))"

definition last_block :: "world \<Rightarrow> error + Block" where
  "last_block w = (if chain w = [] then Inl IndexError else Inr (last (chain w)))"

definition create_block :: "string \<Rightarrow> payload \<Rightarrow> world \<Rightarrow> error + world" where
  "create_block now d w =
     (case retrieve_block w of
        Inl e \<Rightarrow> Inl e
      | Inr lb \<Rightarrow>
          let new_block = Block_init (index lb + 1) now d (hash lb)
          in Inr (w\<lparr>chain := chain w @ [new_block]\<rparr>))"

text \<open>The loop of \<^verbatim>\<open>validation\<close> over \<^verbatim>\<open>range(1, len(self.chain))\<close>, from index \<open>i\<close> on.\<close>

function validation_loop :: "nat \<Rightarrow> world \<Rightarrow> bool \<times> world" where
  "validation_loop i w =
     (if i < length (chain w) then
        (let current_block = chain w ! i; previous_block = chain w ! (i - 1)
         in if prev_hash current_block \<noteq> hash previous_block
            then (False, print (''Block '' @ py_str_int (int i) @ '' has been tampered with'') w)
            else validation_loop (Suc i) w)
      else (True, w))"
  by pat_completeness auto
termination
  by (relation "measure (\<lambda>(i, w). length (chain w) - i)") auto

declare validation_loop.simps [simp del]

definition validation :: "world \<Rightarrow> bool \<times> world" where
  "validation w = validation_loop 1 w"

section \<open>Export and display\<close>

text \<open>
  \<^verbatim>\<open>csv.writer\<close> with the default dialect: a field holding a comma, a quote or a line
  break is quoted with its quotes doubled, fields are joined by commas, a row ends with
  CR LF, and a row that is one empty field is written as a pair of quotes.
\<close>

definition csv_field :: "string \<Rightarrow> string" where
  "csv_field f =
     (if list_ex (\<lambda>c. c \<in> set [CHR '','', DQUOTE, CR, LF]) f
      then DQUOTE # concat (map (\<lambda>c. if c = DQUOTE then [DQUOTE, DQUOTE] else [c]) f) @ [DQUOTE]
      else f)"

definition csv_writerow :: "string list \<Rightarrow> string" where
  "csv_writerow row =
     (if row = [[]] then [DQUOTE, DQUOTE] else join '','' (map csv_field row)) @ [CR, LF]"

text \<open>\<^verbatim>\<open>readline()\<close> of a file opened for reading in text mode: up to the first line break.\<close>

fun readline :: "string \<Rightarrow> string" where
  "readline [] = []"
| "readline (c # cs) = (if c = LF \<or> c = CR then [LF] else c # readline cs)"




definition display_block :: "Block \<Rightarrow> string list" where
  "display_block block =
     [LF # ''Block #'' @ py_str_int (index block),
      ''Timestamp: '' @ timestamp block,
      ''Event: '' @ py_str (dict_get (data block) ''event'' (PStr ''N/A'')),
      ''Batch ID: '' @ py_str (dict_get (data block) ''batch_id'' (PStr ''N/A'')),
      ''Location: '' @ py_str (dict_get (data block) ''location'' (PStr ''N/A'')),
      ''Destination: '' @ py_str (dict_get (data block) ''destination'' (PStr ''N/A'')),
      ''Hash: '' @ hash block,
      ''Previous Hash: '' @ prev_hash block]"

definition display_chain :: "world \<Rightarrow> world" where
  "display_chain w = foldl (\<lambda>w' block. foldl (\<lambda>w'' s. print s w'') w' (display_block block)) w (chain w)"

text \<open>A chain is built by the constructor and a sequence of appends, each at its clock reading.\<close>

fun create_blocks :: "(string \<times> payload) list \<Rightarrow> world \<Rightarrow> error + world" where
  "create_blocks [] w = Inr w"
| "create_blocks ((now, d) # ops) w =
     (case create_block now d w of Inl e \<Rightarrow> Inl e | Inr w' \<Rightarrow> create_blocks ops w')"

definition build :: "string \<Rightarrow> (string \<times> payload) list \<Rightarrow> world \<Rightarrow> error + world" where
  "build now ops w = create_blocks ops (PharmaBlockChain_init now w)"

section \<open>Sample chains\<close>

text \<open>
  The end-to-end scenario: genesis, two appended blocks, and a block built with a wrong
  previous hash, as the sample run of \<^verbatim>\<open>src/main.py\<close> appends it to the list directly.
\<close>

definition empty_world :: world where
  "empty_world = \<lparr>chain = [], stdout = [], files = Map.empty\<rparr>"

definition block0 :: Block where
  "block0 = generate_genesis_block ''Wed Nov  4 07:23:00 2026''"

definition block1 :: Block where
  "block1 = Block_init 1 ''Wed Nov  4 07:23:01 2026''
              [(''event'', PStr ''Manufactured''), (''batch_id'', PStr ''B1'')] (hash block0)"

definition block2 :: Block where
  "block2 = Block_init 2 ''Wed Nov  4 07:23:02 2026''
              [(''event'', PStr ''Shipped''), (''batch_id'', PStr ''B1'')] (hash block1)"

definition tampered_block :: Block where
  "tampered_block = Block_init 3 ''Wed Nov  4 07:23:03 2026''
              [(''event'', PStr ''Mugged after purchase''), (''batch_id'', PStr ''B1'')] ''WRONG''"

definition sample_world :: world where
  "sample_world = \<lparr>chain = [block0, block1, block2], stdout = [], files = Map.empty\<rparr>"

text \<open>
  A chain whose middle block had its stored hash overwritten after construction, the next
  block being linked to the overwritten value.
\<close>

definition forged_block1 :: Block where
  "forged_block1 = block1\<lparr>hash := ''forged''\<rparr>"

definition relinked_block2 :: Block where
  "relinked_block2 = Block_init 2 ''Wed Nov  4 07:23:02 2026''
              [(''event'', PStr ''Shipped''), (''batch_id'', PStr ''B1'')] ''forged''"

definition forged_world :: world where
  "forged_world = \<lparr>chain = [block0, forged_block1, relinked_block2], stdout = [], files = Map.empty\<rparr>"

text \<open>
  The same chain after the payload of its middle block was changed in place, the stored
  hashes left as they were.
\<close>

definition altered_world :: world where
  "altered_world =
     \<lparr>chain = [block0,
               block1\<lparr>data := [(''event'', PStr ''Stolen''), (''batch_id'', PStr ''B1'')]\<rparr>,
               block2],
      stdout = [], files = Map.empty\<rparr>"








text \<open>Text that UTF-8 encodes with one byte per character.\<close>

definition ascii :: "string \<Rightarrow> bool" where
  "ascii s = list_all (\<lambda>c. (of_char c :: nat) < 128) s"

section \<open>Digest, block and loop facts\<close>

lemma length_round256: "length (round256 s kw) = 8"
  by (simp add: round256_def Let_def)

lemma length_rounds: "length h = 8 \<Longrightarrow> length (foldl round256 h xs) = 8"
  by (induction xs arbitrary: h) (simp_all add: length_round256)

lemma length_compress: "length h = 8 \<Longrightarrow> length (compress h m) = 8"
  by (simp add: compress_def length_rounds)

lemma length_compress_all: "length h = 8 \<Longrightarrow> length (foldl compress h cs) = 8"
  by (induction cs arbitrary: h) (simp_all add: length_compress)

lemma length_sha256: "length (sha256 bs) = 8"
  by (simp add: sha256_def length_compress_all H256_def)

lemma length_concat_hex32: "length (concat (map hex32 ws)) = 8 * length ws"
  by (induction ws) (simp_all add: hex32_def)

lemma length_hexdigest: "length (hexdigest bs) = 64"
  by (simp add: hexdigest_def length_concat_hex32 length_sha256)

lemma Block_init_fields:
  "index (Block_init i t d p) = i"
  "timestamp (Block_init i t d p) = t"
  "data (Block_init i t d p) = d"
  "prev_hash (Block_init i t d p) = p"
  "block_info (Block_init i t d p) = block_info_of i t d p"
  "hash (Block_init i t d p) = hexdigest (encode (json_dumps_sorted (block_info_of i t d p)))"
  by (simp_all add: Block_init_def calcHash_def Let_def)

lemma Block_init_calcHash: "calcHash (Block_init i t d p) = hash (Block_init i t d p)"
  by (simp add: Block_init_def calcHash_def Let_def)

lemma length_hash_Block_init: "length (hash (Block_init i t d p)) = 64"
  by (simp add: Block_init_fields length_hexdigest)

lemma validation_loop_chain: "chain (snd (validation_loop i w)) = chain w"
proof (induction i w rule: validation_loop.induct)
  case (1 i w)
  show ?case
    using "1.IH" by (subst validation_loop.simps) (simp add: Let_def print_def)
qed

lemma validation_loop_files: "files (snd (validation_loop i w)) = files w"
proof (induction i w rule: validation_loop.induct)
  case (1 i w)
  show ?case
    using "1.IH" by (subst validation_loop.simps) (simp add: Let_def print_def)
qed

lemma validation_loop_verdict:
  "fst (validation_loop i w) =
     (\<forall>j. i \<le> j \<and> j < length (chain w) \<longrightarrow> prev_hash (chain w ! j) = hash (chain w ! (j - 1)))"
proof (induction i w rule: validation_loop.induct)
  case (1 i w)
  show ?case
  proof (cases "i < length (chain w)")
    case True
    show ?thesis
    proof (cases "prev_hash (chain w ! i) = hash (chain w ! (i - 1))")
      case eq: True
      have "fst (validation_loop i w) = fst (validation_loop (Suc i) w)"
        using True eq by (subst validation_loop.simps) (simp add: Let_def)
      also have "\<dots> = (\<forall>j. Suc i \<le> j \<and> j < length (chain w) \<longrightarrow>
                          prev_hash (chain w ! j) = hash (chain w ! (j - 1)))"
        using "1.IH" True eq by simp
      also have "\<dots> = (\<forall>j. i \<le> j \<and> j < length (chain w) \<longrightarrow>
                          prev_hash (chain w ! j) = hash (chain w ! (j - 1)))"
        using eq by (metis Suc_leD Suc_leI le_neq_implies_less)
      finally show ?thesis .
    next
      case neq: False
      have "fst (validation_loop i w) = False"
        using True neq by (subst validation_loop.simps) (simp add: Let_def)
      moreover have "\<not> (\<forall>j. i \<le> j \<and> j < length (chain w) \<longrightarrow>
                          prev_hash (chain w ! j) = hash (chain w ! (j - 1)))"
        using True neq by blast
      ultimately show ?thesis by simp
    qed
  next
    case False
    then show ?thesis
      by (subst validation_loop.simps) auto
  qed
qed

lemma validation_loop_True: "fst (validation_loop i w) \<Longrightarrow> validation_loop i w = (True, w)"
proof (induction i w rule: validation_loop.induct)
  case (1 i w)
  show ?case
  proof (cases "i < length (chain w)")
    case True
    show ?thesis
    proof (cases "prev_hash (chain w ! i) = hash (chain w ! (i - 1))")
      case eq: True
      have step: "validation_loop i w = validation_loop (Suc i) w"
        using True eq by (subst validation_loop.simps) (simp add: Let_def)
      with "1.prems" "1.IH" True eq show ?thesis by simp
    next
      case neq: False
      have "fst (validation_loop i w) = False"
        using True neq by (subst validation_loop.simps) (simp add: Let_def)
      with "1.prems" show ?thesis by simp
    qed
  next
    case False
    then show ?thesis by (subst validation_loop.simps) simp
  qed
qed

lemma validation_loop_first_mismatch:
  "i \<le> n \<Longrightarrow> n < length (chain w) \<Longrightarrow>
   (\<forall>j. i \<le> j \<and> j < n \<longrightarrow> prev_hash (chain w ! j) = hash (chain w ! (j - 1))) \<Longrightarrow>
   prev_hash (chain w ! n) \<noteq> hash (chain w ! (n - 1)) \<Longrightarrow>
   validation_loop i w =
     (False, print (''Block '' @ py_str_int (int n) @ '' has been tampered with'') w)"
proof (induction i w rule: validation_loop.induct)
  case (1 i w)
  show ?case
  proof (cases "i = n")
    case True
    then show ?thesis
      using "1.prems" by (subst validation_loop.simps) (simp add: Let_def)
  next
    case False
    with "1.prems" have lt: "i < n" by simp
    then have eq: "prev_hash (chain w ! i) = hash (chain w ! (i - 1))"
      using "1.prems" by simp
    have step: "validation_loop i w = validation_loop (Suc i) w"
      using lt "1.prems" eq by (subst validation_loop.simps) (simp add: Let_def)
    have "validation_loop (Suc i) w =
      (False, print (''Block '' @ py_str_int (int n) @ '' has been tampered with'') w)"
      using "1.IH" [of "chain w ! i" "chain w ! (i - 1)"] lt "1.prems" eq by simp
    with step show ?thesis by simp
  qed
qed

lemma validation_valid: "fst (validation w) \<Longrightarrow> validation w = (True, w)"
  by (simp add: validation_def validation_loop_True)

lemma create_block_nonempty:
  "chain w \<noteq> [] \<Longrightarrow>
   create_block now d w =
     Inr (w\<lparr>chain := chain w @ [Block_init (index (last (chain w)) + 1) now d (hash (last (chain w)))]\<rparr>)"
  by (simp add: create_block_def retrieve_block_def Let_def)

lemma create_blocks_total:
  "chain w \<noteq> [] \<Longrightarrow>
   \<exists>w'. create_blocks ops w = Inr w' \<and> stdout w' = stdout w \<and> files w' = files w \<and>
        length (chain w') = length (chain w) + length ops \<and>
        take (length (chain w)) (chain w') = chain w"
proof (induction ops arbitrary: w)
  case Nil
  then show ?case by simp
next
  case (Cons op ops)
  obtain now d where op: "op = (now, d)" by (cases op)
  let ?w1 = "w\<lparr>chain := chain w @ [Block_init (index (last (chain w)) + 1) now d (hash (last (chain w)))]\<rparr>"
  have ne: "chain ?w1 \<noteq> []" by simp
  from Cons.IH [OF ne] obtain w' where w':
    "create_blocks ops ?w1 = Inr w'" "stdout w' = stdout ?w1" "files w' = files ?w1"
    "length (chain w') = length (chain ?w1) + length ops"
    "take (length (chain ?w1)) (chain w') = chain ?w1"
    by blast
  have "take (length (chain w)) (take (length (chain ?w1)) (chain w')) = chain w"
    using w'(5) by simp
  then have "take (length (chain w)) (chain w') = chain w"
    by (simp add: min_def)
  then show ?case
    using w' op create_block_nonempty [OF Cons.prems, of now d] by simp
qed

lemma create_blocks_links:
  "create_blocks ops w = Inr w' \<Longrightarrow> chain w \<noteq> [] \<Longrightarrow>
   \<forall>j. 0 < j \<and> j < length (chain w) \<longrightarrow> prev_hash (chain w ! j) = hash (chain w ! (j - 1)) \<Longrightarrow>
   \<forall>j. 0 < j \<and> j < length (chain w') \<longrightarrow> prev_hash (chain w' ! j) = hash (chain w' ! (j - 1))"
proof (induction ops arbitrary: w)
  case Nil
  then show ?case by simp
next
  case (Cons op ops)
  obtain now d where op: "op = (now, d)" by (cases op)
  let ?b = "Block_init (index (last (chain w)) + 1) now d (hash (last (chain w)))"
  let ?w1 = "w\<lparr>chain := chain w @ [?b]\<rparr>"
  have run: "create_blocks ops ?w1 = Inr w'"
    using Cons.prems(1) op create_block_nonempty [OF Cons.prems(2), of now d] by simp
  have links: "\<forall>j. 0 < j \<and> j < length (chain ?w1) \<longrightarrow>
                 prev_hash (chain ?w1 ! j) = hash (chain ?w1 ! (j - 1))"
  proof (intro allI impI)
    fix j assume j: "0 < j \<and> j < length (chain ?w1)"
    show "prev_hash (chain ?w1 ! j) = hash (chain ?w1 ! (j - 1))"
    proof (cases "j < length (chain w)")
      case True
      then have "j - 1 < length (chain w)" by simp
      with True show ?thesis using j Cons.prems(3) by (simp add: nth_append)
    next
      case False
      with j have "j = length (chain w)" by simp
      then show ?thesis
        using Cons.prems(2) by (simp add: nth_append Block_init_fields last_conv_nth)
    qed
  qed
  show ?case by (rule Cons.IH [OF run _ links]) simp
qed

lemma create_blocks_indices:
  "create_blocks ops w = Inr w' \<Longrightarrow> chain w \<noteq> [] \<Longrightarrow>
   \<forall>j < length (chain w). index (chain w ! j) = int j \<Longrightarrow>
   \<forall>j < length (chain w'). index (chain w' ! j) = int j"
proof (induction ops arbitrary: w)
  case Nil
  then show ?case by simp
next
  case (Cons op ops)
  obtain now d where op: "op = (now, d)" by (cases op)
  let ?b = "Block_init (index (last (chain w)) + 1) now d (hash (last (chain w)))"
  let ?w1 = "w\<lparr>chain := chain w @ [?b]\<rparr>"
  have run: "create_blocks ops ?w1 = Inr w'"
    using Cons.prems(1) op create_block_nonempty [OF Cons.prems(2), of now d] by simp
  have "index (last (chain w)) = int (length (chain w) - 1)"
    using Cons.prems(2,3) by (simp add: last_conv_nth)
  moreover have "int (length (chain w) - 1) + 1 = int (length (chain w))"
    using Cons.prems(2) by (cases "chain w") simp_all
  ultimately have idx: "\<forall>j < length (chain ?w1). index (chain ?w1 ! j) = int j"
    using Cons.prems(2,3) by (auto simp: nth_append Block_init_fields less_Suc_eq)
  show ?case by (rule Cons.IH [OF run _ idx]) simp
qed

lemma build_chain_head:
  "create_blocks ops w = Inr w' \<Longrightarrow> chain w \<noteq> [] \<Longrightarrow> chain w' ! 0 = chain w ! 0"
proof -
  assume run: "create_blocks ops w = Inr w'" and ne: "chain w \<noteq> []"
  from create_blocks_total [OF ne, of ops] run
  have "take (length (chain w)) (chain w') = chain w" by auto
  then have "chain w ! 0 = take (length (chain w)) (chain w') ! 0" by simp
  also have "\<dots> = chain w' ! 0" using ne by simp
  finally show ?thesis by simp
qed

lemma sample_world_built:
  "build ''Wed Nov  4 07:23:00 2026''
     [(''Wed Nov  4 07:23:01 2026'', [(''event'', PStr ''Manufactured''), (''batch_id'', PStr ''B1'')]),
      (''Wed Nov  4 07:23:02 2026'', [(''event'', PStr ''Shipped''), (''batch_id'', PStr ''B1'')])]
     empty_world = Inr sample_world"
  by (simp add: build_def PharmaBlockChain_init_def create_block_def retrieve_block_def
      empty_world_def sample_world_def block0_def block1_def block2_def Let_def
      generate_genesis_block_def Block_init_fields)

lemma sample_links:
  "prev_hash block1 = hash block0" "prev_hash block2 = hash block1"
  "prev_hash tampered_block = ''WRONG''" "prev_hash relinked_block2 = ''forged''"
  "prev_hash forged_block1 = hash block0" "hash forged_block1 = ''forged''"
  by (simp_all add: block1_def block2_def tampered_block_def relinked_block2_def
      forged_block1_def Block_init_fields)

lemma sample_world_valid: "validation sample_world = (True, sample_world)"
  by (rule validation_valid)
     (simp add: validation_def validation_loop_verdict sample_world_def sample_links
        less_Suc_eq nth_Cons' numeral_3_eq_3)

lemma hash_block2_not_WRONG: "''WRONG'' \<noteq> hash block2"
proof
  assume "''WRONG'' = hash block2"
  then have "length ''WRONG'' = length (hash block2)" by simp
  then show False by (simp add: block2_def length_hash_Block_init)
qed

lemma py_str_int_3: "py_str_int 3 = ''3''"
  by (simp add: py_str_int_def dec_nat.simps dec_digit_def)

lemma py_str_int_0: "py_str_int 0 = ''0''"
  by (simp add: py_str_int_def dec_nat.simps dec_digit_def)

section \<open>Canonical serialization\<close>

text \<open>Sorting by key gives one result for all orders of the same items with distinct keys.\<close>

lemma sort_key_fst_unique:
  assumes "distinct (map fst xs)" and "distinct (map fst ys)" and "set xs = set ys"
  shows "sort_key fst xs = sort_key fst ys"
proof -
  let ?A = "sort_key fst xs" and ?B = "sort_key fst ys"
  have inj: "inj_on fst (set xs)" and dx: "distinct xs" and dy: "distinct ys"
    using assms(1,2) by (simp_all add: distinct_map)
  have dA: "distinct (map fst ?A)" using dx inj by (simp add: distinct_map)
  have dB: "distinct (map fst ?B)" using dy inj assms(3) by (simp add: distinct_map)
  have "set (map fst ?A) = set (map fst ?B)" using assms(3) by simp
  with dA dB have keys: "map fst ?A = map fst ?B"
    by (intro sorted_distinct_set_unique) (simp_all only: sorted_sort_key)
  have "inj_on fst (set ?A \<union> set ?B)" using inj assms(3) by simp
  then show ?thesis using keys by (simp only: inj_on_map_eq_map)
qed

lemma dumps_data_order:
  assumes "distinct (map fst d1)" and "distinct (map fst d2)" and "map_of d1 = map_of d2"
  shows "dumps_data d1 = dumps_data d2"
proof -
  let ?g = "\<lambda>kv :: string \<times> pyval. (fst kv, json_scalar (snd kv))"
  have keys: "map fst (map ?g d) = map fst d" for d by (simp add: comp_def)
  have "set d1 = set d2" using assms by (simp add: map_of_inject_set)
  then have "set (map ?g d1) = set (map ?g d2)" by simp
  then have "sort_key fst (map ?g d1) = sort_key fst (map ?g d2)"
    using assms(1,2) by (intro sort_key_fst_unique) (simp_all only: keys)
  then show ?thesis by (simp add: dumps_data_def dumps_items_def)
qed

text \<open>The serialized block: the four entries in the order of their keys.\<close>

lemma block_info_canonical:
  "json_dumps_sorted (block_info_of i t d p) =
     ''{'' @ json_str ''Data'' @ '': '' @ dumps_data d @ '', ''
     @ json_str ''Index'' @ '': '' @ py_str_int i @ '', ''
     @ json_str ''Previous Hash'' @ '': '' @ json_str p @ '', ''
     @ json_str ''Timestamp'' @ '': '' @ json_str t @ ''}''"
  by (simp add: json_dumps_sorted_def block_info_of_def dumps_items_def)

lemma dumps_data_example:
  "dumps_data [(''event'', PStr ''Shipped''), (''batch_id'', PStr ''B1'')] =
     ''{'' @ [DQUOTE] @ ''batch_id'' @ [DQUOTE] @ '': '' @ [DQUOTE] @ ''B1'' @ [DQUOTE] @ '', ''
     @ [DQUOTE] @ ''event'' @ [DQUOTE] @ '': '' @ [DQUOTE] @ ''Shipped'' @ [DQUOTE] @ ''}''"
  by code_simp

text \<open>The encoder writes ASCII only, so the bytes hashed are the characters written.\<close>

lemma ascii_simps [simp]:
  "ascii []" "ascii (c # s) = ((of_char c :: nat) < 128 \<and> ascii s)"
  "ascii (s @ s') = (ascii s \<and> ascii s')"
  by (simp_all add: ascii_def)

lemma ascii_concat: "(\<And>s. s \<in> set ss \<Longrightarrow> ascii s) \<Longrightarrow> ascii (concat ss)"
  by (induction ss) simp_all

lemma ascii_join: "ascii sep \<Longrightarrow> (\<And>s. s \<in> set ss \<Longrightarrow> ascii s) \<Longrightarrow> ascii (join sep ss)"
  by (induction sep ss rule: join.induct) simp_all

lemma ascii_hex_char: "(of_char (hex_char n) :: nat) < 128"
proof -
  have "\<forall>c \<in> set ''0123456789abcdef''. (of_char c :: nat) < 128" by simp
  moreover have "hex_char n \<in> set ''0123456789abcdef''"
    unfolding hex_char_def by (rule nth_mem) simp
  ultimately show ?thesis by blast
qed

lemma ascii_dec_digit: "(of_char (dec_digit n) :: nat) < 128"
proof -
  have "\<forall>c \<in> set ''0123456789''. (of_char c :: nat) < 128" by simp
  moreover have "dec_digit n \<in> set ''0123456789''"
    unfolding dec_digit_def by (rule nth_mem) simp
  ultimately show ?thesis by blast
qed

lemma ascii_dec_nat: "ascii (dec_nat n)"
  by (induction n rule: dec_nat.induct) (subst dec_nat.simps, simp add: ascii_dec_digit)

lemma ascii_py_str_int: "ascii (py_str_int i)"
  by (simp add: py_str_int_def ascii_dec_nat)

lemma ascii_json_escape: "ascii (json_escape c)"
  by (simp add: json_escape_def ascii_hex_char BACKSLASH_def DQUOTE_def)

lemma ascii_json_str: "ascii (json_str s)"
  by (auto simp: json_str_def DQUOTE_def ascii_json_escape intro!: ascii_concat)

lemma ascii_json_scalar: "ascii (json_scalar v)"
  by (cases v) (simp_all add: ascii_py_str_int ascii_json_str)

lemma ascii_dumps_items: "(\<And>kv. kv \<in> set items \<Longrightarrow> ascii (snd kv)) \<Longrightarrow> ascii (dumps_items items)"
  by (auto simp: dumps_items_def ascii_json_str intro!: ascii_join)

lemma ascii_dumps_data: "ascii (dumps_data d)"
  unfolding dumps_data_def by (rule ascii_dumps_items) (auto simp: ascii_json_scalar)

lemma ascii_json_value: "ascii (json_value v)"
  by (cases v) (simp_all add: ascii_json_scalar ascii_dumps_data)

lemma ascii_json_dumps_sorted: "ascii (json_dumps_sorted info)"
  unfolding json_dumps_sorted_def by (rule ascii_dumps_items) (auto simp: ascii_json_value)

text \<open>A published test vector of SHA-256.\<close>

lemma sha256_abc:
  "hexdigest (encode ''abc'') = ''ba7816bf8f01cfea414140de5dae2223b00361a396177a9cb410ff61f20015ad''"
  by code_simp

section \<open>Output facts\<close>

lemma foldl_print: "foldl (\<lambda>w s. print s w) w ss = w\<lparr>stdout := stdout w @ ss\<rparr>"
  by (induction ss arbitrary: w) (simp_all add: print_def)

lemma display_chain_loop:
  "foldl (\<lambda>w' block. foldl (\<lambda>w'' s. print s w'') w' (display_block block)) w bs =
     w\<lparr>stdout := stdout w @ concat (map display_block bs)\<rparr>"
  by (induction bs arbitrary: w) (simp_all add: foldl_print)

lemma display_chain_stdout:
  "display_chain w = w\<lparr>stdout := stdout w @ concat (map display_block (chain w))\<rparr>"
  by (simp add: display_chain_def display_chain_loop)

lemma header_row: "csv_writerow [''Timestamp'', ''Data'', ''Hash''] = ''Timestamp,Data,Hash'' @ [CR, LF]"
  by (simp add: csv_writerow_def csv_field_def DQUOTE_def CR_def LF_def)

lemma header_recognized:
  "contains ''Timestamp'' (readline (csv_writerow [''Timestamp'', ''Data'', ''Hash''] @ rest))"
  by (simp add: header_row CR_def LF_def)




section \<open>The sample genesis block and the first line of a ledger\<close>

text \<open>The serialization and the digest of the genesis block, written out.\<close>

lemma genesis_serialization:
  "json_dumps_sorted (block_info_of 0 t [(''Event'', PStr ''Genesis Block'')] ''0'') =
     ''{'' @ [CHR 0x22] @ ''Data'' @ [CHR 0x22] @ '': {'' @ [CHR 0x22] @ ''Event'' @ [CHR 0x22]
     @ '': '' @ [CHR 0x22] @ ''Genesis Block'' @ [CHR 0x22] @ ''}, '' @ [CHR 0x22] @ ''Index''
     @ [CHR 0x22] @ '': 0, '' @ [CHR 0x22] @ ''Previous Hash'' @ [CHR 0x22] @ '': '' @ [CHR 0x22]
     @ ''0'' @ [CHR 0x22] @ '', '' @ [CHR 0x22] @ ''Timestamp'' @ [CHR 0x22] @ '': ''
     @ json_str t @ ''}''"
  by (simp add: block_info_canonical dumps_data_def dumps_items_def json_str_def json_escape_def
      py_str_int_0 DQUOTE_def BACKSLASH_def LF_def CR_def)

lemma json_str_timestamp0:
  "json_str ''Wed Nov  4 07:23:00 2026'' = [CHR 0x22] @ ''Wed Nov  4 07:23:00 2026'' @ [CHR 0x22]"
  by (simp add: json_str_def json_escape_def DQUOTE_def BACKSLASH_def LF_def CR_def)

lemma genesis_digest:
  "hexdigest (encode
     (''{'' @ [CHR 0x22] @ ''Data'' @ [CHR 0x22] @ '': {'' @ [CHR 0x22] @ ''Event'' @ [CHR 0x22]
     @ '': '' @ [CHR 0x22] @ ''Genesis Block'' @ [CHR 0x22] @ ''}, '' @ [CHR 0x22] @ ''Index''
     @ [CHR 0x22] @ '': 0, '' @ [CHR 0x22] @ ''Previous Hash'' @ [CHR 0x22] @ '': '' @ [CHR 0x22]
     @ ''0'' @ [CHR 0x22] @ '', '' @ [CHR 0x22] @ ''Timestamp'' @ [CHR 0x22] @ '': ''
     @ [CHR 0x22] @ ''Wed Nov  4 07:23:00 2026'' @ [CHR 0x22] @ ''}''))
   = ''adcc4011397419eb5ab3ca3699a985eebde1ca61880fec329908f054892a1e5d''"
  by code_simp














section \<open>Claims\<close>

text \<open>
  C1, as stated: \<^verbatim>\<open>validation\<close> also recomputes each block's digest, so that a block
  whose stored hash was altered after construction, with the links after it consistent,
  gives a negative verdict. In \<open>forged_world\<close> the middle block's stored hash is not the
  digest of its four fields, every link holds, and the verdict is \<open>True\<close>.
\<close>

theorem forged_hash_counterexample:
  "chain forged_world = [block0, forged_block1, relinked_block2]
   \<and> prev_hash forged_block1 = hash block0
   \<and> prev_hash relinked_block2 = hash forged_block1
   \<and> hash forged_block1 \<noteq>
        hash (Block_init (index forged_block1) (timestamp forged_block1)
                (data forged_block1) (prev_hash forged_block1))
   \<and> validation forged_world = (True, forged_world)"
proof -
  have "length (hash forged_block1) \<noteq>
        length (hash (Block_init (index forged_block1) (timestamp forged_block1)
                (data forged_block1) (prev_hash forged_block1)))"
    by (simp add: sample_links length_hash_Block_init)
  then have "hash forged_block1 \<noteq>
        hash (Block_init (index forged_block1) (timestamp forged_block1)
                (data forged_block1) (prev_hash forged_block1))"
    by metis
  moreover have "validation forged_world = (True, forged_world)"
    by (rule validation_valid)
       (simp add: validation_def validation_loop_verdict forged_world_def sample_links
          less_Suc_eq nth_Cons' numeral_3_eq_3)
  ultimately show ?thesis
    by (simp add: forged_world_def sample_links)
qed

text \<open>
  C1, amended: \<^verbatim>\<open>validation\<close> performs the link-continuity check only. Its verdict is
  \<open>True\<close> exactly when every block from position 1 on stores as previous hash the hash
  stored in its predecessor; it leaves the chain as it was; and two chains with the same
  stored hashes and previous hashes get the same verdict, whatever their other fields hold.
\<close>

theorem validation_checks_links_only:
  "fst (validation w) =
     (\<forall>i. 0 < i \<and> i < length (chain w) \<longrightarrow> prev_hash (chain w ! i) = hash (chain w ! (i - 1)))
   \<and> chain (snd (validation w)) = chain w
   \<and> (map prev_hash (chain w') = map prev_hash (chain w) \<and> map hash (chain w') = map hash (chain w)
        \<longrightarrow> fst (validation w') = fst (validation w))"
proof (intro conjI impI)
  show v: "\<And>w. fst (validation w) =
     (\<forall>i. 0 < i \<and> i < length (chain w) \<longrightarrow> prev_hash (chain w ! i) = hash (chain w ! (i - 1)))"
    by (simp add: validation_def validation_loop_verdict Suc_le_eq)
  show "chain (snd (validation w)) = chain w"
    by (simp add: validation_def validation_loop_chain)
  assume eq: "map prev_hash (chain w') = map prev_hash (chain w) \<and> map hash (chain w') = map hash (chain w)"
  then have len: "length (chain w') = length (chain w)"
    by (metis length_map)
  have p: "\<And>i. i < length (chain w) \<Longrightarrow> prev_hash (chain w' ! i) = prev_hash (chain w ! i)"
    using eq len by (metis nth_map)
  have h: "\<And>i. i < length (chain w) \<Longrightarrow> hash (chain w' ! i) = hash (chain w ! i)"
    using eq len by (metis nth_map)
  have "(\<forall>i. 0 < i \<and> i < length (chain w') \<longrightarrow> prev_hash (chain w' ! i) = hash (chain w' ! (i - 1)))
      = (\<forall>i. 0 < i \<and> i < length (chain w) \<longrightarrow> prev_hash (chain w ! i) = hash (chain w ! (i - 1)))"
    using len p h by (metis less_imp_diff_less)
  then show "fst (validation w') = fst (validation w)"
    by (simp only: v)
qed

theorem validation_checks_links_only_witness:
  "map prev_hash (chain altered_world) = map prev_hash (chain sample_world)
   \<and> map hash (chain altered_world) = map hash (chain sample_world)
   \<and> fst (validation altered_world) = fst (validation sample_world)
   \<and> fst (validation sample_world)
   \<and> (0::nat) < 1 \<and> 1 < length (chain sample_world)
   \<and> prev_hash (chain sample_world ! 1) = hash (chain sample_world ! 0)"
proof -
  have eq: "map prev_hash (chain altered_world) = map prev_hash (chain sample_world)
            \<and> map hash (chain altered_world) = map hash (chain sample_world)"
    by (simp add: altered_world_def sample_world_def)
  have pos: "(0::nat) < 1 \<and> 1 < length (chain sample_world)"
    by (simp add: sample_world_def)
  have ok: "fst (validation sample_world)"
    by (simp add: sample_world_valid)
  from validation_checks_links_only [of sample_world altered_world] eq pos ok
  show ?thesis by auto
qed

text \<open>
  C2, as stated: on a valid chain of length \<open>N\<close> extended by a block with a wrong
  previous hash, \<^verbatim>\<open>validation\<close> returns false together with the offending index. The
  value returned is the boolean alone; the index is printed.
\<close>

theorem tampered_tail_counterexample:
  "validation (sample_world\<lparr>chain := [block0, block1, block2, tampered_block]\<rparr>) =
     (False, sample_world\<lparr>chain := [block0, block1, block2, tampered_block],
                          stdout := [''Block 3 has been tampered with'']\<rparr>)"
proof -
  let ?w = "sample_world\<lparr>chain := [block0, block1, block2, tampered_block]\<rparr>"
  have "validation_loop 1 ?w =
     (False, print (''Block '' @ py_str_int (int 3) @ '' has been tampered with'') ?w)"
    by (rule validation_loop_first_mismatch)
       (simp_all add: sample_links hash_block2_not_WRONG less_Suc_eq nth_Cons' numeral_3_eq_3)
  then show ?thesis
    by (simp add: validation_def py_str_int_3 print_def sample_world_def)
qed

text \<open>
  C2, amended: for every non-empty chain of length \<open>N\<close> that \<^verbatim>\<open>validation\<close> accepts,
  after a block whose previous hash is not the hash of the tail is put at the end,
  \<^verbatim>\<open>validation\<close> returns \<open>False\<close> as an ordinary value and prints
  \<^verbatim>\<open>Block N has been tampered with\<close>, \<open>N\<close> being the position of the new block and the
  first position whose link fails; the chain and the files are as before the call.
\<close>

theorem tamper_detection:
  assumes "chain w \<noteq> []" and "fst (validation w)" and "prev_hash b \<noteq> hash (last (chain w))"
  shows "validation (w\<lparr>chain := chain w @ [b]\<rparr>) =
           (False, w\<lparr>chain := chain w @ [b],
                     stdout := stdout w @ [''Block '' @ py_str_int (int (length (chain w)))
                                           @ '' has been tampered with'']\<rparr>)
         \<and> (\<forall>i. 0 < i \<and> i < length (chain w) \<longrightarrow>
               prev_hash ((chain w @ [b]) ! i) = hash ((chain w @ [b]) ! (i - 1)))"
proof -
  let ?n = "length (chain w)"
  let ?w = "w\<lparr>chain := chain w @ [b]\<rparr>"
  have old: "\<forall>j. 1 \<le> j \<and> j < ?n \<longrightarrow> prev_hash (chain w ! j) = hash (chain w ! (j - 1))"
    using assms(2) by (simp add: validation_def validation_loop_verdict)
  have links: "\<forall>j. 1 \<le> j \<and> j < ?n \<longrightarrow> prev_hash (chain ?w ! j) = hash (chain ?w ! (j - 1))"
  proof (intro allI impI)
    fix j assume j: "1 \<le> j \<and> j < ?n"
    then have "j - 1 < ?n" by linarith
    with j old show "prev_hash (chain ?w ! j) = hash (chain ?w ! (j - 1))"
      by (simp add: nth_append)
  qed
  have bad: "prev_hash (chain ?w ! ?n) \<noteq> hash (chain ?w ! (?n - 1))"
    using assms(1,3) by (simp add: nth_append last_conv_nth)
  have "1 \<le> ?n" using assms(1) by (cases "chain w") simp_all
  moreover have "?n < length (chain ?w)" by simp
  ultimately have "validation_loop 1 ?w =
      (False, print (''Block '' @ py_str_int (int ?n) @ '' has been tampered with'') ?w)"
    using links bad by (rule validation_loop_first_mismatch)
  then have "validation ?w =
           (False, w\<lparr>chain := chain w @ [b],
                     stdout := stdout w @ [''Block '' @ py_str_int (int ?n)
                                           @ '' has been tampered with'']\<rparr>)"
    by (simp add: validation_def print_def)
  moreover have "\<forall>i. 0 < i \<and> i < ?n \<longrightarrow>
               prev_hash ((chain w @ [b]) ! i) = hash ((chain w @ [b]) ! (i - 1))"
    using links by simp
  ultimately show ?thesis by simp
qed

theorem tamper_detection_witness:
  "chain sample_world \<noteq> [] \<and> fst (validation sample_world)
   \<and> prev_hash tampered_block \<noteq> hash (last (chain sample_world))
   \<and> validation (sample_world\<lparr>chain := chain sample_world @ [tampered_block]\<rparr>) =
       (False, sample_world\<lparr>chain := chain sample_world @ [tampered_block],
                            stdout := [''Block 3 has been tampered with'']\<rparr>)"
proof -
  have ne: "chain sample_world \<noteq> []" by (simp add: sample_world_def)
  have ok: "fst (validation sample_world)" by (simp add: sample_world_valid)
  have bad: "prev_hash tampered_block \<noteq> hash (last (chain sample_world))"
    using hash_block2_not_WRONG by (simp add: sample_links sample_world_def)
  have n: "length (chain sample_world) = 3" "stdout sample_world = []"
    by (simp_all add: sample_world_def)
  from tamper_detection [OF ne ok bad] ne ok bad show ?thesis
    by (simp add: n py_str_int_3)
qed

text \<open>
  C3: for every number of appends, the chain built by the constructor and then the
  appends, with any payloads, is accepted by \<^verbatim>\<open>validation\<close>, and every block from
  position 1 on stores as previous hash the hash of the block before it.
\<close>

theorem built_chain_valid:
  "\<exists>w'. build t0 ops w0 = Inr w' \<and> length (chain w') = length ops + 1
      \<and> validation w' = (True, w')
      \<and> (\<forall>i \<in> {1..length ops}. prev_hash (chain w' ! i) = hash (chain w' ! (i - 1)))"
proof -
  let ?w1 = "PharmaBlockChain_init t0 w0"
  have ne: "chain ?w1 \<noteq> []" by (simp add: PharmaBlockChain_init_def)
  from create_blocks_total [OF ne, of ops] obtain w' where
    run: "create_blocks ops ?w1 = Inr w'" and len: "length (chain w') = length (chain ?w1) + length ops"
    by blast
  have len': "length (chain w') = length ops + 1"
    using len by (simp add: PharmaBlockChain_init_def)
  have base: "\<forall>j. 0 < j \<and> j < length (chain ?w1) \<longrightarrow>
                 prev_hash (chain ?w1 ! j) = hash (chain ?w1 ! (j - 1))"
    by (simp add: PharmaBlockChain_init_def)
  have links: "\<forall>j. 0 < j \<and> j < length (chain w') \<longrightarrow>
                 prev_hash (chain w' ! j) = hash (chain w' ! (j - 1))"
    by (rule create_blocks_links [OF run ne base])
  then have "fst (validation w')"
    by (simp add: validation_def validation_loop_verdict)
  then have "validation w' = (True, w')" by (rule validation_valid)
  moreover have "\<forall>i \<in> {1..length ops}. prev_hash (chain w' ! i) = hash (chain w' ! (i - 1))"
    using links len' by simp
  ultimately show ?thesis using run len' by (simp add: build_def)
qed

theorem built_chain_valid_witness:
  "\<exists>w'. build ''Wed Nov  4 07:23:00 2026''
           [(''Wed Nov  4 07:23:01 2026'', [(''event'', PStr ''Manufactured''), (''batch_id'', PStr ''B1'')]),
            (''Wed Nov  4 07:23:02 2026'', [(''event'', PStr ''Shipped''), (''batch_id'', PStr ''B1'')])]
           empty_world = Inr w'
      \<and> length (chain w') = 3 \<and> validation w' = (True, w')
      \<and> (1::nat) \<in> {1..2} \<and> prev_hash (chain w' ! 1) = hash (chain w' ! 0)
      \<and> (2::nat) \<in> {1..2} \<and> prev_hash (chain w' ! 2) = hash (chain w' ! 1)"
  using built_chain_valid [of "''Wed Nov  4 07:23:00 2026''"
           "[(''Wed Nov  4 07:23:01 2026'', [(''event'', PStr ''Manufactured''), (''batch_id'', PStr ''B1'')]),
            (''Wed Nov  4 07:23:02 2026'', [(''event'', PStr ''Shipped''), (''batch_id'', PStr ''B1'')])]"
           empty_world]
  by (auto simp: numeral_2_eq_2)

text \<open>
  C4: the hash of a block is a function of its index, timestamp, payload and previous
  hash, namely the digest of their canonical serialization, and two payloads that are the
  same mapping with keys inserted in different orders give the same hash.
\<close>

theorem block_hash_key_order_independent:
  assumes "distinct (map fst d1)" and "distinct (map fst d2)" and "map_of d1 = map_of d2"
  shows "hash (Block_init i t d1 p) = hash (Block_init i t d2 p)
         \<and> hash (Block_init i t d1 p) = hexdigest (encode (json_dumps_sorted (block_info_of i t d1 p)))
         \<and> json_dumps_sorted (block_info_of i t d1 p) = json_dumps_sorted (block_info_of i t d2 p)"
proof -
  have "json_dumps_sorted (block_info_of i t d1 p) = json_dumps_sorted (block_info_of i t d2 p)"
    using dumps_data_order [OF assms]
    by (simp add: json_dumps_sorted_def block_info_of_def)
  then show ?thesis by (simp add: Block_init_fields)
qed

theorem block_hash_key_order_independent_witness:
  "distinct (map fst [(''event'', PStr ''Shipped''), (''batch_id'', PStr ''B1'')])
   \<and> distinct (map fst [(''batch_id'', PStr ''B1''), (''event'', PStr ''Shipped'')])
   \<and> map_of [(''event'', PStr ''Shipped''), (''batch_id'', PStr ''B1'')]
       = map_of [(''batch_id'', PStr ''B1''), (''event'', PStr ''Shipped'')]
   \<and> hash (Block_init 2 ''Wed Nov  4 07:23:02 2026''
              [(''event'', PStr ''Shipped''), (''batch_id'', PStr ''B1'')] ''0'')
       = hash (Block_init 2 ''Wed Nov  4 07:23:02 2026''
              [(''batch_id'', PStr ''B1''), (''event'', PStr ''Shipped'')] ''0'')"
proof -
  have d1: "distinct (map fst [(''event'', PStr ''Shipped''), (''batch_id'', PStr ''B1'')])"
    by simp
  have d2: "distinct (map fst [(''batch_id'', PStr ''B1''), (''event'', PStr ''Shipped'')])"
    by simp
  have m: "map_of [(''event'', PStr ''Shipped''), (''batch_id'', PStr ''B1'')]
       = map_of [(''batch_id'', PStr ''B1''), (''event'', PStr ''Shipped'')]"
    by (auto simp: fun_eq_iff)
  from block_hash_key_order_independent [OF d1 d2 m, of 2 "''Wed Nov  4 07:23:02 2026''" "''0''"]
  show ?thesis using d1 d2 m by simp
qed

text \<open>
  C5: in every chain built by the constructor and any appends, the first block has index
  0, previous hash \<^verbatim>\<open>"0"\<close>, the payload \<^verbatim>\<open>{"Event": "Genesis Block"}\<close>, and a stored hash
  that is the SHA-256 digest of the canonical serialization of its own four fields; that
  serialization is the text
  \<^verbatim>\<open>{"Data": {"Event": "Genesis Block"}, "Index": 0, "Previous Hash": "0", "Timestamp": t}\<close>
  with the timestamp \<open>t\<close> as a JSON string.
\<close>

theorem genesis_invariants:
  "\<exists>w'. build t0 ops w0 = Inr w' \<and> chain w' \<noteq> []
      \<and> index (chain w' ! 0) = 0
      \<and> prev_hash (chain w' ! 0) = ''0''
      \<and> data (chain w' ! 0) = [(''Event'', PStr ''Genesis Block'')]
      \<and> timestamp (chain w' ! 0) = t0
      \<and> hash (chain w' ! 0) = calcHash (chain w' ! 0)
      \<and> hash (chain w' ! 0) =
          hexdigest (encode (json_dumps_sorted
            (block_info_of (index (chain w' ! 0)) (timestamp (chain w' ! 0))
               (data (chain w' ! 0)) (prev_hash (chain w' ! 0)))))
      \<and> json_dumps_sorted
            (block_info_of (index (chain w' ! 0)) (timestamp (chain w' ! 0))
               (data (chain w' ! 0)) (prev_hash (chain w' ! 0))) =
          ''{'' @ [CHR 0x22] @ ''Data'' @ [CHR 0x22] @ '': {'' @ [CHR 0x22] @ ''Event'' @ [CHR 0x22]
          @ '': '' @ [CHR 0x22] @ ''Genesis Block'' @ [CHR 0x22] @ ''}, '' @ [CHR 0x22] @ ''Index''
          @ [CHR 0x22] @ '': 0, '' @ [CHR 0x22] @ ''Previous Hash'' @ [CHR 0x22] @ '': '' @ [CHR 0x22]
          @ ''0'' @ [CHR 0x22] @ '', '' @ [CHR 0x22] @ ''Timestamp'' @ [CHR 0x22] @ '': ''
          @ json_str t0 @ ''}''"
proof -
  let ?w1 = "PharmaBlockChain_init t0 w0"
  have ne: "chain ?w1 \<noteq> []" by (simp add: PharmaBlockChain_init_def)
  from create_blocks_total [OF ne, of ops] obtain w' where
    run: "create_blocks ops ?w1 = Inr w'" and len: "length (chain w') = length (chain ?w1) + length ops"
    by blast
  have head: "chain w' ! 0 = generate_genesis_block t0"
    using build_chain_head [OF run ne] by (simp add: PharmaBlockChain_init_def)
  have ne': "chain w' \<noteq> []" using len ne by auto
  have f: "index (chain w' ! 0) = 0" "prev_hash (chain w' ! 0) = ''0''"
    "data (chain w' ! 0) = [(''Event'', PStr ''Genesis Block'')]" "timestamp (chain w' ! 0) = t0"
    by (simp_all add: head generate_genesis_block_def Block_init_fields)
  have h1: "hash (chain w' ! 0) = calcHash (chain w' ! 0)"
    by (simp add: head generate_genesis_block_def Block_init_calcHash)
  have h2: "hash (chain w' ! 0) =
      hexdigest (encode (json_dumps_sorted (block_info_of 0 t0 [(''Event'', PStr ''Genesis Block'')] ''0'')))"
    by (simp add: head generate_genesis_block_def Block_init_fields)
  show ?thesis
  proof (intro exI [of _ w'] conjI)
    show "build t0 ops w0 = Inr w'" using run by (simp add: build_def)
    show "chain w' \<noteq> []" by (rule ne')
    show "index (chain w' ! 0) = 0" by (rule f)
    show "prev_hash (chain w' ! 0) = ''0''" by (rule f)
    show "data (chain w' ! 0) = [(''Event'', PStr ''Genesis Block'')]" by (rule f)
    show "timestamp (chain w' ! 0) = t0" by (rule f)
    show "hash (chain w' ! 0) = calcHash (chain w' ! 0)" by (rule h1)
    show "hash (chain w' ! 0) =
          hexdigest (encode (json_dumps_sorted
            (block_info_of (index (chain w' ! 0)) (timestamp (chain w' ! 0))
               (data (chain w' ! 0)) (prev_hash (chain w' ! 0)))))"
      unfolding f by (rule h2)
    show "json_dumps_sorted
            (block_info_of (index (chain w' ! 0)) (timestamp (chain w' ! 0))
               (data (chain w' ! 0)) (prev_hash (chain w' ! 0))) =
          ''{'' @ [CHR 0x22] @ ''Data'' @ [CHR 0x22] @ '': {'' @ [CHR 0x22] @ ''Event'' @ [CHR 0x22]
          @ '': '' @ [CHR 0x22] @ ''Genesis Block'' @ [CHR 0x22] @ ''}, '' @ [CHR 0x22] @ ''Index''
          @ [CHR 0x22] @ '': 0, '' @ [CHR 0x22] @ ''Previous Hash'' @ [CHR 0x22] @ '': '' @ [CHR 0x22]
          @ ''0'' @ [CHR 0x22] @ '', '' @ [CHR 0x22] @ ''Timestamp'' @ [CHR 0x22] @ '': ''
          @ json_str t0 @ ''}''"
      unfolding f by (rule genesis_serialization)
  qed
qed

text \<open>
  For the genesis block created at \<^verbatim>\<open>Wed Nov  4 07:23:00 2026\<close> the digest is
  \<^verbatim>\<open>adcc4011397419eb5ab3ca3699a985eebde1ca61880fec329908f054892a1e5d\<close>.
\<close>

theorem genesis_invariants_witness:
  "\<exists>w'. build ''Wed Nov  4 07:23:00 2026''
           [(''Wed Nov  4 07:23:01 2026'', [(''event'', PStr ''Manufactured''), (''batch_id'', PStr ''B1'')])]
           empty_world = Inr w'
      \<and> index (chain w' ! 0) = 0
      \<and> prev_hash (chain w' ! 0) = ''0''
      \<and> data (chain w' ! 0) = [(''Event'', PStr ''Genesis Block'')]
      \<and> json_dumps_sorted
            (block_info_of (index (chain w' ! 0)) (timestamp (chain w' ! 0))
               (data (chain w' ! 0)) (prev_hash (chain w' ! 0))) =
          ''{'' @ [CHR 0x22] @ ''Data'' @ [CHR 0x22] @ '': {'' @ [CHR 0x22] @ ''Event'' @ [CHR 0x22]
          @ '': '' @ [CHR 0x22] @ ''Genesis Block'' @ [CHR 0x22] @ ''}, '' @ [CHR 0x22] @ ''Index''
          @ [CHR 0x22] @ '': 0, '' @ [CHR 0x22] @ ''Previous Hash'' @ [CHR 0x22] @ '': '' @ [CHR 0x22]
          @ ''0'' @ [CHR 0x22] @ '', '' @ [CHR 0x22] @ ''Timestamp'' @ [CHR 0x22] @ '': ''
          @ [CHR 0x22] @ ''Wed Nov  4 07:23:00 2026'' @ [CHR 0x22] @ ''}''
      \<and> hash (chain w' ! 0) = ''adcc4011397419eb5ab3ca3699a985eebde1ca61880fec329908f054892a1e5d''"
proof -
  from genesis_invariants [of "''Wed Nov  4 07:23:00 2026''"
         "[(''Wed Nov  4 07:23:01 2026'', [(''event'', PStr ''Manufactured''), (''batch_id'', PStr ''B1'')])]"
         empty_world]
  obtain w' where w':
    "build ''Wed Nov  4 07:23:00 2026''
           [(''Wed Nov  4 07:23:01 2026'', [(''event'', PStr ''Manufactured''), (''batch_id'', PStr ''B1'')])]
           empty_world = Inr w'"
    "index (chain w' ! 0) = 0" "prev_hash (chain w' ! 0) = ''0''"
    "data (chain w' ! 0) = [(''Event'', PStr ''Genesis Block'')]"
    "hash (chain w' ! 0) =
       hexdigest (encode (json_dumps_sorted
            (block_info_of (index (chain w' ! 0)) (timestamp (chain w' ! 0))
               (data (chain w' ! 0)) (prev_hash (chain w' ! 0)))))"
    "json_dumps_sorted
            (block_info_of (index (chain w' ! 0)) (timestamp (chain w' ! 0))
               (data (chain w' ! 0)) (prev_hash (chain w' ! 0))) =
          ''{'' @ [CHR 0x22] @ ''Data'' @ [CHR 0x22] @ '': {'' @ [CHR 0x22] @ ''Event'' @ [CHR 0x22]
          @ '': '' @ [CHR 0x22] @ ''Genesis Block'' @ [CHR 0x22] @ ''}, '' @ [CHR 0x22] @ ''Index''
          @ [CHR 0x22] @ '': 0, '' @ [CHR 0x22] @ ''Previous Hash'' @ [CHR 0x22] @ '': '' @ [CHR 0x22]
          @ ''0'' @ [CHR 0x22] @ '', '' @ [CHR 0x22] @ ''Timestamp'' @ [CHR 0x22] @ '': ''
          @ json_str ''Wed Nov  4 07:23:00 2026'' @ ''}''"
    by blast
  have ser: "json_dumps_sorted
            (block_info_of (index (chain w' ! 0)) (timestamp (chain w' ! 0))
               (data (chain w' ! 0)) (prev_hash (chain w' ! 0))) =
          ''{'' @ [CHR 0x22] @ ''Data'' @ [CHR 0x22] @ '': {'' @ [CHR 0x22] @ ''Event'' @ [CHR 0x22]
          @ '': '' @ [CHR 0x22] @ ''Genesis Block'' @ [CHR 0x22] @ ''}, '' @ [CHR 0x22] @ ''Index''
          @ [CHR 0x22] @ '': 0, '' @ [CHR 0x22] @ ''Previous Hash'' @ [CHR 0x22] @ '': '' @ [CHR 0x22]
          @ ''0'' @ [CHR 0x22] @ '', '' @ [CHR 0x22] @ ''Timestamp'' @ [CHR 0x22] @ '': ''
          @ [CHR 0x22] @ ''Wed Nov  4 07:23:00 2026'' @ [CHR 0x22] @ ''}''"
    using w'(6) by (simp only: json_str_timestamp0 append_assoc)
  have "hash (chain w' ! 0) = ''adcc4011397419eb5ab3ca3699a985eebde1ca61880fec329908f054892a1e5d''"
    using w'(5) genesis_digest by (simp only: ser)
  with w'(1-4) ser show ?thesis by blast
qed

text \<open>
  C6: on a non-empty chain with tail block \<open>t\<close>, \<^verbatim>\<open>create_block(data)\<close> succeeds and
  appends exactly one new block at the end, with index \<open>index t + 1\<close>, the clock reading
  as timestamp, the given payload and previous hash \<open>hash t\<close>, so the length grows by
  one; and in every chain built by the constructor followed by appends, the block at
  position \<open>i\<close> has index \<open>i\<close>.
\<close>

theorem create_block_postcondition:
  "(chain w \<noteq> [] \<longrightarrow>
      (\<exists>b. create_block now d w = Inr (w\<lparr>chain := chain w @ [b]\<rparr>)
         \<and> index b = index (last (chain w)) + 1 \<and> timestamp b = now \<and> data b = d
         \<and> prev_hash b = hash (last (chain w))
         \<and> length (chain w @ [b]) = length (chain w) + 1))
   \<and> (\<exists>w'. build t0 ops w0 = Inr w' \<and> length (chain w') = length ops + 1
         \<and> (\<forall>i < length (chain w'). index (chain w' ! i) = int i))"
proof (intro conjI impI)
  assume ne: "chain w \<noteq> []"
  show "\<exists>b. create_block now d w = Inr (w\<lparr>chain := chain w @ [b]\<rparr>)
         \<and> index b = index (last (chain w)) + 1 \<and> timestamp b = now \<and> data b = d
         \<and> prev_hash b = hash (last (chain w))
         \<and> length (chain w @ [b]) = length (chain w) + 1"
    using create_block_nonempty [OF ne, of now d]
    by (intro exI [of _ "Block_init (index (last (chain w)) + 1) now d (hash (last (chain w)))"])
       (simp add: Block_init_fields)
next
  let ?w1 = "PharmaBlockChain_init t0 w0"
  have ne: "chain ?w1 \<noteq> []" by (simp add: PharmaBlockChain_init_def)
  from create_blocks_total [OF ne, of ops] obtain w' where
    run: "create_blocks ops ?w1 = Inr w'" and len: "length (chain w') = length (chain ?w1) + length ops"
    by blast
  have base: "\<forall>j < length (chain ?w1). index (chain ?w1 ! j) = int j"
    by (simp add: PharmaBlockChain_init_def generate_genesis_block_def Block_init_fields)
  have "\<forall>i < length (chain w'). index (chain w' ! i) = int i"
    by (rule create_blocks_indices [OF run ne base])
  with run len show "\<exists>w'. build t0 ops w0 = Inr w' \<and> length (chain w') = length ops + 1
         \<and> (\<forall>i < length (chain w'). index (chain w' ! i) = int i)"
    by (simp add: build_def PharmaBlockChain_init_def)
qed

theorem create_block_postcondition_witness:
  "chain sample_world \<noteq> []
   \<and> (\<exists>b. create_block ''Wed Nov  4 07:23:03 2026'' [(''event'', PStr ''Sold'')] sample_world
             = Inr (sample_world\<lparr>chain := chain sample_world @ [b]\<rparr>)
         \<and> index b = 3 \<and> prev_hash b = hash block2)
   \<and> (\<exists>w'. build ''Wed Nov  4 07:23:00 2026'' [(''Wed Nov  4 07:23:01 2026'', [])] empty_world = Inr w'
         \<and> index (chain w' ! 0) = 0 \<and> index (chain w' ! 1) = 1)"
proof -
  have ne: "chain sample_world \<noteq> []" by (simp add: sample_world_def)
  have idx: "index (last (chain sample_world)) + 1 = 3" "last (chain sample_world) = block2"
    by (simp_all add: sample_world_def block2_def Block_init_fields)
  from create_block_postcondition
         [of sample_world "''Wed Nov  4 07:23:03 2026''" "[(''event'', PStr ''Sold'')]"
             "''Wed Nov  4 07:23:00 2026''" "[(''Wed Nov  4 07:23:01 2026'', [])]" empty_world]
  show ?thesis using ne idx by auto
qed

text \<open>
  C7, as stated: on a chain with zero blocks \<^verbatim>\<open>validation\<close> fails with a dedicated
  empty-chain error. The code raises nothing there: the loop runs over the empty range
  and the verdict is \<open>True\<close>; \<^verbatim>\<open>retrieve_block\<close> raises the IndexError of the list access.
\<close>

theorem empty_chain_counterexample:
  "chain empty_world = [] \<and> validation empty_world = (True, empty_world)
   \<and> retrieve_block empty_world = Inl IndexError"
  by (simp add: empty_world_def validation_def validation_loop.simps retrieve_block_def)

text \<open>
  C7, amended: on a chain with zero blocks \<^verbatim>\<open>retrieve_block\<close> raises IndexError and
  \<^verbatim>\<open>validation\<close> returns \<open>True\<close> without an error and without an effect; on every
  non-empty chain \<^verbatim>\<open>retrieve_block\<close> returns the last block.
\<close>

theorem empty_chain_behaviour:
  "(chain w = [] \<longrightarrow> retrieve_block w = Inl IndexError \<and> validation w = (True, w))
   \<and> (chain w \<noteq> [] \<longrightarrow> retrieve_block w = Inr (last (chain w)))"
  by (simp add: validation_def validation_loop.simps retrieve_block_def)

theorem empty_chain_behaviour_witness:
  "chain empty_world = [] \<and> retrieve_block empty_world = Inl IndexError
   \<and> validation empty_world = (True, empty_world)
   \<and> chain sample_world \<noteq> [] \<and> retrieve_block sample_world = Inr block2"
  using empty_chain_behaviour [of empty_world] empty_chain_behaviour [of sample_world]
  by (simp add: empty_world_def sample_world_def)




text \<open>
  C9: for every non-empty chain, the method \<^verbatim>\<open>retrieve_block()\<close> and the property
  \<^verbatim>\<open>last_block\<close> return the same block, the final element of the list of blocks.
\<close>

theorem tail_accessors_agree:
  "chain w \<noteq> [] \<Longrightarrow> retrieve_block w = last_block w \<and> retrieve_block w = Inr (last (chain w))"
  by (simp add: retrieve_block_def last_block_def)

theorem tail_accessors_agree_witness:
  "chain sample_world \<noteq> [] \<and> retrieve_block sample_world = last_block sample_world
   \<and> retrieve_block sample_world = Inr block2"
  using tail_accessors_agree [of sample_world] by (auto simp: sample_world_def)

text \<open>
  C10: \<^verbatim>\<open>display_chain\<close> on a freshly constructed chain prints, for the genesis block,
  \<^verbatim>\<open>N/A\<close> as event, batch id, location and destination: it looks up the lower-case keys,
  and the only key of the genesis payload is the capitalized \<^verbatim>\<open>Event\<close>.
\<close>

theorem genesis_display_shows_NA:
  "stdout (display_chain (PharmaBlockChain_init now w)) =
     stdout w @ [LF # ''Block #0'', ''Timestamp: '' @ now,
                 ''Event: N/A'', ''Batch ID: N/A'', ''Location: N/A'', ''Destination: N/A'',
                 ''Hash: '' @ hash (generate_genesis_block now), ''Previous Hash: 0'']
   \<and> data (generate_genesis_block now) = [(''Event'', PStr ''Genesis Block'')]
   \<and> dict_get (data (generate_genesis_block now)) ''Event'' (PStr ''N/A'') = PStr ''Genesis Block''
   \<and> dict_get (data (generate_genesis_block now)) ''event'' (PStr ''N/A'') = PStr ''N/A''"
  by (simp add: display_chain_stdout PharmaBlockChain_init_def display_block_def
      generate_genesis_block_def Block_init_fields dict_get_def py_str_int_0)

end
